theory Spec2Isabelle
  imports Main "HOL-Library.Word"
begin

section \<open>The circuit breaker of package breaker\<close>

text \<open>
  The package keeps one \<open>Breaker\<close> value that callers mutate through its methods.
  The embedding passes that value explicitly. Two effects of the methods leave the
  struct: a send on a subscriber's channel (\<open>reader <- *event\<close>) and the start of a
  goroutine waiting on a timer. Both are recorded beside the struct, in a log of sends
  and a list of pending timers, so that a claim about events and timers reads them.

  Calls are made one after another. Two goroutines run beside the caller: the one that
  waits on a timer, and the one that runs the operation of a timed \<open>Execute\<close>. A
  timer that fires while a call is running has the effect of one that fires just
  before or just after it, but for one place: between the moment \<open>Failure\<close> has set
  the state to Open and its later test for HalfOpen. What happens there, and what the
  operation's goroutine has done when the timer of \<open>Execute\<close> expires, is decided
  outside the code and is an argument of the method.
\<close>

subsection \<open>Types and constants\<close>

type_synonym uint32 = "32 word"

text \<open>\<open>type State int\<close>, \<open>type StateService int\<close> and \<open>time.Duration\<close>
  (nanoseconds) are integers on which the package only tests equality.\<close>

type_synonym State = int
type_synonym StateService = int
type_synonym Duration = int

definition STATE_CLOSE :: State where
  "STATE_CLOSE = 1"

definition STATE_HALF_OPEN :: State where
  "STATE_HALF_OPEN = 2"

definition STATE_OPEN :: State where
  "STATE_OPEN = 3"

definition SERVICE_AVAILABLE :: StateService where
  "SERVICE_AVAILABLE = 1"

definition SERVICE_UNAVAILABLE :: StateService where
  "SERVICE_UNAVAILABLE = 0"

definition Second :: Duration where
  "Second = 1000000000"

text \<open>An error made by \<open>errors.New\<close> is known by its message.\<close>

type_synonym error = string

record 'd ResponseCommand =
  Data :: "'d option"
  Error :: "error option"

record CounterResult =
  TotalRequests :: uint32
  TotalSucceses :: uint32
  TotalFailures :: uint32
  TotalRejects :: uint32

record BreakerEvent =
  Code :: StateService
  Message :: string

record OptionsConfig =
  Attempts :: uint32
  TimeoutState :: Duration
  LimitFailure :: uint32
  MaxRequests :: uint32
  NameService :: string

text \<open>A channel is known by its identity.\<close>

type_synonym chan = nat

record Breaker =
  options :: OptionsConfig
  counter :: CounterResult
  events :: "chan list"
  state :: State
  consecFailures :: uint32

text \<open>The breaker with what its methods have done outside the struct: every send
  \<open>reader <- *event\<close> in order, and the delay of every goroutine that
  \<open>StartTimerChangeState\<close> started and whose timer has not fired yet.\<close>

record sys =
  cb :: Breaker
  sends :: "(chan \<times> BreakerEvent) list"
  timers :: "Duration list"

text \<open>The operation that \<open>Execute\<close> wraps is a closure \<open>func() ResponseCommand\<close>:
  it may change anything it has captured, the breaker included, and it may never
  return (\<open>None\<close>).\<close>

type_synonym 'd HandleFunc = "sys \<Rightarrow> ('d ResponseCommand \<times> sys) option"


definition ErrorTimeoutExecute :: error where
  "ErrorTimeoutExecute = ''Execute is expired''"

definition ErrorServiceUnavailable :: error where
  "ErrorServiceUnavailable = ''Service is unavailable''"

subsection \<open>NewBreaker\<close>

text \<open>\<open>strconv.Itoa\<close>: the decimal digits, with a minus sign below zero.\<close>

definition digit_char :: "nat \<Rightarrow> char" where
  "digit_char d = ''0123456789'' ! d"

function digits :: "nat \<Rightarrow> string" where
  "digits n = (if n < 10 then [digit_char n] else digits (n div 10) @ [digit_char (n mod 10)])"
  by pat_completeness auto
termination
  by (relation "measure (\<lambda>n. n)") auto

definition Itoa :: "int \<Rightarrow> string" where
  "Itoa i = (if i < 0 then CHR ''-'' # digits (nat (- i)) else digits (nat i))"

text \<open>\<open>NewBreaker\<close> takes a pointer that may be nil (\<open>None\<close>, replaced by the zero
  value \<open>OptionsConfig{}\<close>) and reads the clock; \<open>now\<close> is the value of
  \<open>int(time.Now().UnixNano())\<close>.\<close>

definition zero_options :: OptionsConfig where
  "zero_options = \<lparr>Attempts = 0, TimeoutState = 0, LimitFailure = 0,
                    MaxRequests = 0, NameService = []\<rparr>"

definition NewBreaker :: "OptionsConfig option \<Rightarrow> int \<Rightarrow> Breaker" where
  "NewBreaker opts now =
    (let o0 = (case opts of None \<Rightarrow> zero_options | Some p \<Rightarrow> p);
         o1 = (if Attempts o0 = 0 then o0\<lparr>Attempts := 3\<rparr> else o0);
         o2 = (if TimeoutState o1 = 0 then o1\<lparr>TimeoutState := 4 * Second\<rparr> else o1);
         o3 = (if LimitFailure o2 = 0 then o2\<lparr>LimitFailure := 5\<rparr> else o2);
         o4 = (if MaxRequests o3 = 0 then o3\<lparr>MaxRequests := 10000000\<rparr> else o3);
         o5 = (if NameService o4 = [] then o4\<lparr>NameService := Itoa now\<rparr> else o4)
     in \<lparr>options = o5,
         counter = \<lparr>TotalRequests = 0, TotalSucceses = 0, TotalFailures = 0, TotalRejects = 0\<rparr>,
         events = [],
         state = STATE_CLOSE,
         consecFailures = 0\<rparr>)"

text \<open>A new breaker has sent nothing and started no timer.\<close>

definition start :: "Breaker \<Rightarrow> sys" where
  "start b = \<lparr>cb = b, sends = [], timers = []\<rparr>"

subsection \<open>Events\<close>

text \<open>\<open>SendEvent\<close> loops over the registered channels and sends the event on each.\<close>

definition send_on :: "BreakerEvent \<Rightarrow> chan \<Rightarrow> sys \<Rightarrow> sys" where
  "send_on event reader s = s\<lparr>sends := sends s @ [(reader, event)]\<rparr>"

definition SendEvent :: "BreakerEvent \<Rightarrow> sys \<Rightarrow> sys" where
  "SendEvent event s = fold (send_on event) (events (cb s)) s"

text \<open>\<open>Subcriber\<close> makes a new inbound channel, appends it to \<open>cb.events\<close> and
  starts the relay that reads from it. The new channel differs from every channel
  made before. The relay always takes what is sent, so a send does not block; its
  queue of 100 events and the channel it returns are left out.\<close>

definition fresh_chan :: "chan list \<Rightarrow> chan" where
  "fresh_chan cs = Suc (fold max cs 0)"

definition Subcriber :: "sys \<Rightarrow> sys" where
  "Subcriber s = s\<lparr>cb := (cb s)\<lparr>events := events (cb s) @ [fresh_chan (events (cb s))]\<rparr>\<rparr>"

subsection \<open>State\<close>

definition SetState :: "State \<Rightarrow> sys \<Rightarrow> sys" where
  "SetState newState s = s\<lparr>cb := (cb s)\<lparr>state := newState\<rparr>\<rparr>"

definition GetState :: "sys \<Rightarrow> State" where
  "GetState s = state (cb s)"

definition IsOpen :: "sys \<Rightarrow> bool" where
  "IsOpen s = (if GetState s = STATE_OPEN then True else False)"

definition IsClose :: "sys \<Rightarrow> bool" where
  "IsClose s = (if GetState s = STATE_CLOSE then True else False)"

definition IsHalfOpen :: "sys \<Rightarrow> bool" where
  "IsHalfOpen s = (if GetState s = STATE_HALF_OPEN then True else False)"

subsection \<open>Accounting\<close>

text \<open>\<open>atomic.AddUint32\<close> wraps around at \<open>2 ^ 32\<close>, as the word addition does.\<close>

definition Reject :: "sys \<Rightarrow> sys" where
  "Reject s = s\<lparr>cb := (cb s)\<lparr>counter := (counter (cb s))
                 \<lparr>TotalRejects := TotalRejects (counter (cb s)) + 1\<rparr>\<rparr>\<rparr>"

definition Success :: "sys \<Rightarrow> sys" where
  "Success s =
    (let s1 = s\<lparr>cb := (cb s)\<lparr>counter := (counter (cb s))
                 \<lparr>TotalSucceses := TotalSucceses (counter (cb s)) + 1\<rparr>\<rparr>\<rparr>
     in if IsHalfOpen s1
        then (let s2 = SetState STATE_CLOSE s1
              in s2\<lparr>cb := (cb s2)\<lparr>consecFailures := 0\<rparr>\<rparr>)
        else s1)"

definition StartTimerChangeState :: "sys \<Rightarrow> sys" where
  "StartTimerChangeState s = s\<lparr>timers := timers s @ [TimeoutState (options (cb s))]\<rparr>"

definition unavailable :: "sys \<Rightarrow> BreakerEvent" where
  "unavailable s = \<lparr>Code = SERVICE_UNAVAILABLE,
                     Message = ''Service '' @ NameService (options (cb s)) @ '' is unavailable''\<rparr>"

definition available :: "sys \<Rightarrow> BreakerEvent" where
  "available s = \<lparr>Code = SERVICE_AVAILABLE,
                   Message = ''Service '' @ NameService (options (cb s)) @ '' is available''\<rparr>"

subsection \<open>The timer\<close>

text \<open>The goroutine of \<open>StartTimerChangeState\<close> waits for its timer, then runs its
  body once and ends. \<open>TimerFire i\<close> is that body for the \<open>i\<close>-th pending timer; no
  step exists for a timer that is not pending.\<close>

definition drop_at :: "nat \<Rightarrow> 'a list \<Rightarrow> 'a list" where
  "drop_at i xs = take i xs @ drop (Suc i) xs"

definition TimerFire :: "nat \<Rightarrow> sys \<Rightarrow> sys option" where
  "TimerFire i s =
    (if i < length (timers s)
     then (let s1 = s\<lparr>timers := drop_at i (timers s)\<rparr>
           in if GetState s1 = STATE_OPEN
              then (let s2 = SetState STATE_HALF_OPEN s1
                    in Some (SendEvent (available s2) s2))
              else Some s1)
     else None)"

text \<open>The timers that fire one after another while the caller is held up; one that is
  not pending does not fire.\<close>

definition fire_during :: "nat list \<Rightarrow> sys \<Rightarrow> sys" where
  "fire_during fired s = fold (\<lambda>i s. case TimerFire i s of None \<Rightarrow> s | Some s' \<Rightarrow> s') fired s"

text \<open>The sends of \<open>SendEvent\<close> are on unbuffered channels, so the caller is held up
  at each. A \<open>race\<close> says what the timer goroutines do meanwhile: after the first
  \<open>k\<close> sends the timers \<open>fired\<close> fire. With \<open>quiet\<close> none does.\<close>

type_synonym race = "nat \<times> nat list"

definition quiet :: race where
  "quiet = (0, [])"

definition SendEvent_during :: "race \<Rightarrow> BreakerEvent \<Rightarrow> sys \<Rightarrow> sys" where
  "SendEvent_during r event s =
    (let readers = events (cb s);
         s1 = fold (send_on event) (take (fst r) readers) s;
         s2 = fire_during (snd r) s1
     in fold (send_on event) (drop (fst r) readers) s2)"

subsection \<open>Failure\<close>

text \<open>When \<open>Failure\<close> trips the breaker it sets the state to Open, starts the timer and
  sends the event; only then comes its test for HalfOpen, which is not an \<open>else\<close>
  branch. The timers that fire during the sends are the argument \<open>r\<close>. Where
  \<open>Failure\<close> tests nothing afterwards (the sends of its HalfOpen branch), a timer that
  fires during the call is one that fires after it.\<close>

definition Failure :: "race \<Rightarrow> sys \<Rightarrow> sys" where
  "Failure r s =
    (let s1 = s\<lparr>cb := (cb s)\<lparr>counter := (counter (cb s))
                 \<lparr>TotalFailures := TotalFailures (counter (cb s)) + 1\<rparr>\<rparr>\<rparr>;
         s2 = (if IsClose s1
               then (let s3 = s1\<lparr>cb := (cb s1)\<lparr>consecFailures := consecFailures (cb s1) + 1\<rparr>\<rparr>;
                         consec = consecFailures (cb s3)
                     in if consec > LimitFailure (options (cb s3))
                        then (let s4 = SetState STATE_OPEN s3;
                                  s5 = StartTimerChangeState s4
                              in SendEvent_during r (unavailable s5) s5)
                        else s3)
               else s1)
     in if IsHalfOpen s2
        then (let s6 = SetState STATE_OPEN s2;
                  s7 = StartTimerChangeState s6
              in SendEvent (unavailable s7) s7)
        else s2)"

subsection \<open>Execute\<close>

text \<open>With a timeout, \<open>Execute\<close> runs the operation in a goroutine and selects between
  its result and a timer. Which of the two the \<open>select\<close> takes is decided outside the
  code: it is the argument \<open>first\<close>. An operation that never returns leaves only the
  timer. When the timer is taken the operation is abandoned, and the breaker is as the
  operation's goroutine has left it by then: \<open>part\<close> is what that goroutine has done
  so far (nothing, a part, or all of what the operation does). The argument \<open>r\<close> is
  the race of the \<open>Failure\<close> that \<open>Execute\<close> may call.\<close>

datatype select_case = HandleDone | TimerExpired

definition Execute ::
  "'d HandleFunc \<Rightarrow> Duration \<Rightarrow> select_case \<Rightarrow> (sys \<Rightarrow> sys) \<Rightarrow> race \<Rightarrow> sys
     \<Rightarrow> ('d ResponseCommand \<times> sys) option" where
  "Execute handle timeout first part r s =
    (let s1 = s\<lparr>cb := (cb s)\<lparr>counter := (counter (cb s))
                 \<lparr>TotalRequests := TotalRequests (counter (cb s)) + 1\<rparr>\<rparr>\<rparr>
     in if IsOpen s1
        then Some (\<lparr>Data = None, Error = Some ErrorServiceUnavailable\<rparr>, Reject s1)
        else (let ran = (if timeout = 0 then handle s1
                         else (case (handle s1, first) of
                                 (Some (response, s2), HandleDone) \<Rightarrow> Some (response, s2)
                               | _ \<Rightarrow> Some (\<lparr>Data = None, Error = Some ErrorTimeoutExecute\<rparr>,
                                           part s1)))
              in case ran of
                   None \<Rightarrow> None
                 | Some (response, s3) \<Rightarrow>
                     if Error response \<noteq> None then Some (response, Failure r s3)
                     else Some (response, Success s3)))"

subsection \<open>Runs\<close>

text \<open>A run is a sequence of calls on one breaker, with timers firing in between. A
  step that does not return (an operation that never returns under \<open>Execute\<close> with
  timeout 0) or that is not there (a timer that is not pending) ends the run with
  \<open>None\<close>.\<close>

datatype 'd action =
    DoExecute "'d HandleFunc" Duration select_case "sys \<Rightarrow> sys" race
  | DoSuccess
  | DoFailure race
  | DoReject
  | DoSetState State
  | DoSubcriber
  | DoTimerFire nat

fun step :: "'d action \<Rightarrow> sys \<Rightarrow> sys option" where
  "step (DoExecute handle timeout first part r) s =
     map_option snd (Execute handle timeout first part r s)"
| "step DoSuccess s = Some (Success s)"
| "step (DoFailure r) s = Some (Failure r s)"
| "step DoReject s = Some (Reject s)"
| "step (DoSetState newState) s = Some (SetState newState s)"
| "step DoSubcriber s = Some (Subcriber s)"
| "step (DoTimerFire i) s = TimerFire i s"

fun run :: "'d action list \<Rightarrow> sys \<Rightarrow> sys option" where
  "run [] s = Some s"
| "run (a # as) s = (case step a s of None \<Rightarrow> None | Some s' \<Rightarrow> run as s')"

text \<open>An operation that leaves the breaker's state and its pending timers as they
  are, and one that leaves its counters as they are; and the same of the part of an
  abandoned operation.\<close>

definition keeps_state :: "'d HandleFunc \<Rightarrow> bool" where
  "keeps_state handle =
    (\<forall>s r s'. handle s = Some (r, s') \<longrightarrow> state (cb s') = state (cb s) \<and> timers s' = timers s)"

definition keeps_counter :: "'d HandleFunc \<Rightarrow> bool" where
  "keeps_counter handle =
    (\<forall>s r s'. handle s = Some (r, s') \<longrightarrow> counter (cb s') = counter (cb s))"

definition part_keeps_state :: "(sys \<Rightarrow> sys) \<Rightarrow> bool" where
  "part_keeps_state part = (\<forall>s. state (cb (part s)) = state (cb s) \<and> timers (part s) = timers s)"

definition part_keeps_counter :: "(sys \<Rightarrow> sys) \<Rightarrow> bool" where
  "part_keeps_counter part = (\<forall>s. counter (cb (part s)) = counter (cb s))"

text \<open>The actions of a run without \<open>SetState\<close>, whose operations keep the state.\<close>

fun no_SetState :: "'d action \<Rightarrow> bool" where
  "no_SetState (DoExecute handle timeout first part r) =
     (keeps_state handle \<and> part_keeps_state part)"
| "no_SetState (DoSetState newState) = False"
| "no_SetState a = True"

text \<open>The actions of a run of \<open>Execute\<close> calls, whose operations keep the counters,
  with timers firing in between.\<close>

fun Execute_or_timer :: "'d action \<Rightarrow> bool" where
  "Execute_or_timer (DoExecute handle timeout first part r) =
     (keeps_counter handle \<and> part_keeps_counter part)"
| "Execute_or_timer (DoTimerFire i) = True"
| "Execute_or_timer a = False"

text \<open>The breaker after the request counter has been incremented, as at the start of
  \<open>Execute\<close>.\<close>

definition asked :: "sys \<Rightarrow> sys" where
  "asked s = s\<lparr>cb := (cb s)\<lparr>counter := (counter (cb s))
                 \<lparr>TotalRequests := TotalRequests (counter (cb s)) + 1\<rparr>\<rparr>\<rparr>"

text \<open>Open with one pending timer, or not Open with none.\<close>

definition tidy :: "sys \<Rightarrow> bool" where
  "tidy s = ((state (cb s) = STATE_OPEN \<longrightarrow> length (timers s) = 1)
            \<and> (state (cb s) \<noteq> STATE_OPEN \<longrightarrow> timers s = []))"

subsection \<open>Operations and breakers used as examples\<close>

text \<open>The operation of the client answers with the user agent, or with an error.\<close>

definition op_ok :: "string HandleFunc" where
  "op_ok s = Some (\<lparr>Data = Some ''curl'', Error = None\<rparr>, s)"

definition op_bad :: "string HandleFunc" where
  "op_bad s = Some (\<lparr>Data = None, Error = Some ''Bad response status from httpbin server''\<rparr>, s)"



definition op_meddle :: "string HandleFunc" where
  "op_meddle s = Some (\<lparr>Data = Some ''curl'', Error = None\<rparr>, Failure quiet s)"

text \<open>Calls of \<open>Execute\<close> with timeout 0 and these operations: one that fails, one
  that fails while the timer it starts fires during its sends, and one that
  succeeds.\<close>

definition bad_call :: "string action" where
  "bad_call = DoExecute op_bad 0 HandleDone id quiet"

definition bad_call_racing :: "string action" where
  "bad_call_racing = DoExecute op_bad 0 HandleDone id (0, [0])"

definition ok_call :: "string action" where
  "ok_call = DoExecute op_ok 0 HandleDone id quiet"

text \<open>The breaker of the client: \<open>NewBreaker(&OptionsConfig{})\<close>; the same breaker
  with two subscribers; and the latter in each of the other two states.\<close>

definition fresh :: sys where
  "fresh = start (NewBreaker (Some zero_options) 1700000000000000000)"

definition watched :: sys where
  "watched = Subcriber (Subcriber fresh)"

definition watched_open :: sys where
  "watched_open = StartTimerChangeState (SetState STATE_OPEN watched)"

definition watched_half :: sys where
  "watched_half = SetState STATE_HALF_OPEN watched"

text \<open>A breaker with one subscriber that trips at the second failure and waits one
  nanosecond, after its first failure.\<close>

definition hasty :: sys where
  "hasty = Failure quiet (Subcriber (start (NewBreaker
     (Some (zero_options\<lparr>TimeoutState := 1, LimitFailure := 1\<rparr>)) 1700000000000000000)))"

text \<open>A breaker whose threshold is the largest \<open>uint32\<close>.\<close>

definition unlimited :: sys where
  "unlimited = start (NewBreaker (Some (zero_options\<lparr>LimitFailure := 4294967295\<rparr>)) 1700000000000000000)"

text \<open>The requests are the successes, the failures and the rejects together, in the
  arithmetic of \<open>uint32\<close>.\<close>

definition balanced :: "sys \<Rightarrow> bool" where
  "balanced s = (TotalRequests (counter (cb s)) =
     TotalSucceses (counter (cb s)) + TotalFailures (counter (cb s)) + TotalRejects (counter (cb s)))"

section \<open>The methods in closed form\<close>

subsection \<open>Sending, the state tests and the timer\<close>

lemma fold_send_on:
  "fold (send_on e) cs s = s\<lparr>sends := sends s @ map (\<lambda>r. (r, e)) cs\<rparr>"
  by (induction cs arbitrary: s) (simp_all add: send_on_def)

lemma SendEvent_eq:
  "SendEvent e s = s\<lparr>sends := sends s @ map (\<lambda>r. (r, e)) (events (cb s))\<rparr>"
  by (simp add: SendEvent_def fold_send_on)

lemmas state_consts = STATE_CLOSE_def STATE_HALF_OPEN_def STATE_OPEN_def

lemmas state_tests = IsOpen_def IsClose_def IsHalfOpen_def GetState_def SetState_def

lemma length_drop_at: "i < length xs \<Longrightarrow> length (drop_at i xs) = length xs - 1"
  by (simp add: drop_at_def)

lemma TimerFire_eq:
  "i < length (timers s) \<Longrightarrow>
   TimerFire i s =
     Some (if state (cb s) = STATE_OPEN
           then s\<lparr>cb := (cb s)\<lparr>state := STATE_HALF_OPEN\<rparr>,
                  sends := sends s @ map (\<lambda>reader. (reader, available s)) (events (cb s)),
                  timers := drop_at i (timers s)\<rparr>
           else s\<lparr>timers := drop_at i (timers s)\<rparr>)"
  by (simp add: TimerFire_def state_tests Let_def SendEvent_eq available_def)

lemma TimerFire_fields:
  assumes "TimerFire i s = Some s'"
  shows "options (cb s') = options (cb s)" and "counter (cb s') = counter (cb s)"
    and "events (cb s') = events (cb s)" and "consecFailures (cb s') = consecFailures (cb s)"
  using assms by (auto simp: TimerFire_def state_tests Let_def SendEvent_eq split: if_splits)

lemma fire_during_Nil: "fire_during [] s = s"
  by (simp add: fire_during_def)

lemma fire_during_Cons:
  "fire_during (i # fired) s =
     fire_during fired (case TimerFire i s of None \<Rightarrow> s | Some s' \<Rightarrow> s')"
  by (simp add: fire_during_def)

lemma fire_during_fields:
  "options (cb (fire_during fired s)) = options (cb s)
   \<and> counter (cb (fire_during fired s)) = counter (cb s)
   \<and> events (cb (fire_during fired s)) = events (cb s)
   \<and> consecFailures (cb (fire_during fired s)) = consecFailures (cb s)"
proof (induction fired arbitrary: s)
  case Nil
  then show ?case by (simp add: fire_during_Nil)
next
  case (Cons i fired)
  show ?case
  proof (cases "TimerFire i s")
    case None
    with Cons [of s] show ?thesis by (simp add: fire_during_Cons)
  next
    case (Some s')
    with Cons [of s'] TimerFire_fields [OF Some] show ?thesis
      by (simp add: fire_during_Cons)
  qed
qed

lemma SendEvent_during_eq:
  "SendEvent_during r e s =
     (let s2 = fire_during (snd r)
                 (s\<lparr>sends := sends s @ map (\<lambda>reader. (reader, e)) (take (fst r) (events (cb s)))\<rparr>)
      in s2\<lparr>sends := sends s2 @ map (\<lambda>reader. (reader, e)) (drop (fst r) (events (cb s)))\<rparr>)"
  by (simp add: SendEvent_during_def fold_send_on Let_def)

lemma SendEvent_during_quiet:
  assumes "snd r = []"
  shows "SendEvent_during r e s = s\<lparr>sends := sends s @ map (\<lambda>reader. (reader, e)) (events (cb s))\<rparr>"
proof -
  have "map (\<lambda>reader. (reader, e)) (take (fst r) (events (cb s)))
        @ map (\<lambda>reader. (reader, e)) (drop (fst r) (events (cb s)))
        = map (\<lambda>reader. (reader, e)) (events (cb s))"
    by (simp flip: map_append)
  then show ?thesis
    using assms by (simp add: SendEvent_during_eq fire_during_Nil)
qed

lemma SendEvent_during_fields:
  "options (cb (SendEvent_during r e s)) = options (cb s)
   \<and> counter (cb (SendEvent_during r e s)) = counter (cb s)
   \<and> events (cb (SendEvent_during r e s)) = events (cb s)
   \<and> consecFailures (cb (SendEvent_during r e s)) = consecFailures (cb s)"
  by (simp add: SendEvent_during_eq Let_def fire_during_fields)

subsection \<open>Success, Failure and Reject, state by state\<close>

lemma Success_other:
  "state (cb s) \<noteq> STATE_HALF_OPEN \<Longrightarrow>
   Success s = s\<lparr>cb := (cb s)\<lparr>counter := (counter (cb s))
                 \<lparr>TotalSucceses := TotalSucceses (counter (cb s)) + 1\<rparr>\<rparr>\<rparr>"
  by (simp add: Success_def state_tests)

lemma Success_half:
  "state (cb s) = STATE_HALF_OPEN \<Longrightarrow>
   Success s = s\<lparr>cb := (cb s)\<lparr>counter := (counter (cb s))
                 \<lparr>TotalSucceses := TotalSucceses (counter (cb s)) + 1\<rparr>,
                 state := STATE_CLOSE, consecFailures := 0\<rparr>\<rparr>"
  by (simp add: Success_def state_tests Let_def)

lemma Failure_other:
  "state (cb s) \<noteq> STATE_CLOSE \<Longrightarrow> state (cb s) \<noteq> STATE_HALF_OPEN \<Longrightarrow>
   Failure r s = s\<lparr>cb := (cb s)\<lparr>counter := (counter (cb s))
                 \<lparr>TotalFailures := TotalFailures (counter (cb s)) + 1\<rparr>\<rparr>\<rparr>"
  by (simp add: Failure_def state_tests)

lemma Failure_half:
  "state (cb s) = STATE_HALF_OPEN \<Longrightarrow>
   Failure r s = s\<lparr>cb := (cb s)\<lparr>counter := (counter (cb s))
                 \<lparr>TotalFailures := TotalFailures (counter (cb s)) + 1\<rparr>,
                 state := STATE_OPEN\<rparr>,
                 timers := timers s @ [TimeoutState (options (cb s))],
                 sends := sends s @ map (\<lambda>r. (r, unavailable s)) (events (cb s))\<rparr>"
  by (simp add: Failure_def state_tests state_consts Let_def SendEvent_eq
        StartTimerChangeState_def unavailable_def)

lemma Failure_below:
  "state (cb s) = STATE_CLOSE \<Longrightarrow> \<not> LimitFailure (options (cb s)) < consecFailures (cb s) + 1 \<Longrightarrow>
   Failure r s = s\<lparr>cb := (cb s)\<lparr>counter := (counter (cb s))
                 \<lparr>TotalFailures := TotalFailures (counter (cb s)) + 1\<rparr>,
                 consecFailures := consecFailures (cb s) + 1\<rparr>\<rparr>"
  by (simp add: Failure_def state_tests state_consts Let_def)

text \<open>The tripping call, whatever fires during its sends.\<close>

lemma Failure_racing:
  assumes "state (cb s) = STATE_CLOSE"
    and "LimitFailure (options (cb s)) < consecFailures (cb s) + 1"
  shows "Failure r s =
    (let s5 = s\<lparr>cb := (cb s)\<lparr>counter := (counter (cb s))
                 \<lparr>TotalFailures := TotalFailures (counter (cb s)) + 1\<rparr>,
                 consecFailures := consecFailures (cb s) + 1,
                 state := STATE_OPEN\<rparr>,
                 timers := timers s @ [TimeoutState (options (cb s))]\<rparr>;
         s6 = SendEvent_during r (unavailable s) s5
     in if state (cb s6) = STATE_HALF_OPEN
        then s6\<lparr>cb := (cb s6)\<lparr>state := STATE_OPEN\<rparr>,
                timers := timers s6 @ [TimeoutState (options (cb s))],
                sends := sends s6 @ map (\<lambda>reader. (reader, unavailable s)) (events (cb s))\<rparr>
        else s6)"
proof -
  let ?s5 = "s\<lparr>cb := (cb s)\<lparr>counter := (counter (cb s))
                 \<lparr>TotalFailures := TotalFailures (counter (cb s)) + 1\<rparr>,
                 consecFailures := consecFailures (cb s) + 1,
                 state := STATE_OPEN\<rparr>,
                 timers := timers s @ [TimeoutState (options (cb s))]\<rparr>"
  define s6 where "s6 = SendEvent_during r (unavailable s) ?s5"
  have u: "unavailable ?s5 = unavailable s"
    by (simp add: unavailable_def)
  have f: "options (cb s6) = options (cb s)" "events (cb s6) = events (cb s)"
    using SendEvent_during_fields [of r "unavailable s" ?s5] by (simp_all add: s6_def)
  have u7: "unavailable (StartTimerChangeState (SetState STATE_OPEN s6)) = unavailable s"
    by (simp add: unavailable_def StartTimerChangeState_def SetState_def f)
  have "Failure r s =
    (let s6 = SendEvent_during r (unavailable ?s5) ?s5
     in if state (cb s6) = STATE_HALF_OPEN
        then (let s7 = StartTimerChangeState (SetState STATE_OPEN s6)
              in SendEvent (unavailable s7) s7)
        else s6)"
    using assms by (simp add: Failure_def state_tests Let_def StartTimerChangeState_def)
  then have "Failure r s =
    (if state (cb s6) = STATE_HALF_OPEN
     then SendEvent (unavailable s) (StartTimerChangeState (SetState STATE_OPEN s6))
     else s6)"
    unfolding u by (simp add: Let_def u7 flip: s6_def)
  also have "\<dots> =
    (if state (cb s6) = STATE_HALF_OPEN
     then s6\<lparr>cb := (cb s6)\<lparr>state := STATE_OPEN\<rparr>,
             timers := timers s6 @ [TimeoutState (options (cb s))],
             sends := sends s6 @ map (\<lambda>reader. (reader, unavailable s)) (events (cb s))\<rparr>
     else s6)"
    by (simp add: SendEvent_eq StartTimerChangeState_def SetState_def f)
  finally show ?thesis
    by (simp add: Let_def flip: s6_def)
qed

lemma Failure_trips:
  assumes "state (cb s) = STATE_CLOSE"
    and "LimitFailure (options (cb s)) < consecFailures (cb s) + 1"
    and "snd r = []"
  shows "Failure r s = s\<lparr>cb := (cb s)\<lparr>counter := (counter (cb s))
                 \<lparr>TotalFailures := TotalFailures (counter (cb s)) + 1\<rparr>,
                 consecFailures := consecFailures (cb s) + 1,
                 state := STATE_OPEN\<rparr>,
                 timers := timers s @ [TimeoutState (options (cb s))],
                 sends := sends s @ map (\<lambda>r. (r, unavailable s)) (events (cb s))\<rparr>"
  by (simp add: Failure_racing [OF assms(1,2)] SendEvent_during_quiet [OF assms(3)] state_consts)

lemma Failure_counter:
  "counter (cb (Failure r s)) = (counter (cb s))\<lparr>TotalFailures := TotalFailures (counter (cb s)) + 1\<rparr>"
proof -
  consider "state (cb s) = STATE_CLOSE" "LimitFailure (options (cb s)) < consecFailures (cb s) + 1"
    | "state (cb s) = STATE_CLOSE" "\<not> LimitFailure (options (cb s)) < consecFailures (cb s) + 1"
    | "state (cb s) = STATE_HALF_OPEN"
    | "state (cb s) \<noteq> STATE_CLOSE" "state (cb s) \<noteq> STATE_HALF_OPEN"
    by blast
  then show ?thesis
  proof cases
    case 1
    let ?s5 = "s\<lparr>cb := (cb s)\<lparr>counter := (counter (cb s))
                 \<lparr>TotalFailures := TotalFailures (counter (cb s)) + 1\<rparr>,
                 consecFailures := consecFailures (cb s) + 1,
                 state := STATE_OPEN\<rparr>,
                 timers := timers s @ [TimeoutState (options (cb s))]\<rparr>"
    have "counter (cb (SendEvent_during r (unavailable s) ?s5)) = counter (cb ?s5)"
      using SendEvent_during_fields by blast
    then show ?thesis
      by (simp add: Failure_racing [OF 1] Let_def)
  next
    case 2
    then show ?thesis by (simp add: Failure_below)
  next
    case 3
    then show ?thesis by (simp add: Failure_half)
  next
    case 4
    then show ?thesis by (simp add: Failure_other)
  qed
qed


lemma Success_counter:
  "counter (cb (Success s)) = (counter (cb s))\<lparr>TotalSucceses := TotalSucceses (counter (cb s)) + 1\<rparr>"
  by (simp add: Success_def state_tests Let_def)

lemma Reject_counter:
  "counter (cb (Reject s)) = (counter (cb s))\<lparr>TotalRejects := TotalRejects (counter (cb s)) + 1\<rparr>"
  by (simp add: Reject_def)

lemma Success_timers: "timers (Success s) = timers s"
  by (simp add: Success_def state_tests Let_def)

lemma Success_state:
  "state (cb (Success s)) = (if state (cb s) = STATE_HALF_OPEN then STATE_CLOSE else state (cb s))"
  by (simp add: Success_def state_tests Let_def)

lemma Reject_state: "state (cb (Reject s)) = state (cb s)"
  by (simp add: Reject_def)

lemma Reject_timers: "timers (Reject s) = timers s"
  by (simp add: Reject_def)

subsection \<open>Failures in a row\<close>

lemma word_succ_greater: "(L::uint32) \<noteq> - 1 \<Longrightarrow> L < L + 1"
  by (simp add: inc_less_eq_self_iff_eq not_le [symmetric])

lemma Failure_fold_closed:
  assumes "state (cb s) = STATE_CLOSE" and "consecFailures (cb s) = 0"
    and "length rs \<le> unat (LimitFailure (options (cb s)))"
  shows "fold Failure rs s = s\<lparr>cb := (cb s)\<lparr>counter := (counter (cb s))
                       \<lparr>TotalFailures := TotalFailures (counter (cb s)) + of_nat (length rs)\<rparr>,
                       consecFailures := of_nat (length rs)\<rparr>\<rparr>"
  using assms(3)
proof (induction rs rule: rev_induct)
  case Nil
  then show ?case using assms(2) by simp
next
  case (snoc r rs)
  let ?n = "length rs"
  let ?L = "LimitFailure (options (cb s))"
  let ?p = "s\<lparr>cb := (cb s)\<lparr>counter := (counter (cb s))
                       \<lparr>TotalFailures := TotalFailures (counter (cb s)) + of_nat ?n\<rparr>,
                       consecFailures := of_nat ?n\<rparr>\<rparr>"
  from snoc have p: "fold Failure rs s = ?p" by simp
  have "unat ?L < 2 ^ 32"
    using unsigned_less [of ?L, where 'a = nat] by simp
  then have lt: "Suc ?n < 2 ^ 32"
    using snoc.prems by simp
  have "unat (of_nat ?n + 1 :: uint32) = Suc ?n"
    using lt by (simp add: unat_word_ariths unat_of_nat)
  then have le: "\<not> ?L < of_nat ?n + 1"
    using snoc.prems by (simp add: word_less_nat_alt)
  have "Failure r ?p = ?p\<lparr>cb := (cb ?p)\<lparr>counter := (counter (cb ?p))
                 \<lparr>TotalFailures := TotalFailures (counter (cb ?p)) + 1\<rparr>,
                 consecFailures := consecFailures (cb ?p) + 1\<rparr>\<rparr>"
    using le assms(1) by (intro Failure_below) simp_all
  then show ?case
    by (simp add: p add.assoc)
qed

lemma Failure_never_trips:
  assumes "state (cb s) = STATE_CLOSE" and "LimitFailure (options (cb s)) = - 1"
  shows "state (cb ((Failure r ^^ n) s)) = STATE_CLOSE
         \<and> LimitFailure (options (cb ((Failure r ^^ n) s))) = - 1
         \<and> sends ((Failure r ^^ n) s) = sends s
         \<and> timers ((Failure r ^^ n) s) = timers s"
proof (induction n)
  case 0
  then show ?case using assms by simp
next
  case (Suc n)
  then show ?case
    by (simp add: Failure_below)
qed

text \<open>One pending timer and Open: whatever fires, either nothing has changed in state
  and timers, or the state is HalfOpen and no timer is left.\<close>

lemma fire_during_none: "timers s = [] \<Longrightarrow> fire_during fired s = s"
  by (induction fired) (simp_all add: fire_during_Nil fire_during_Cons TimerFire_def)

lemma fire_during_single:
  assumes "timers s = [t]" and "state (cb s) = STATE_OPEN"
  shows "(state (cb (fire_during fired s)) = STATE_OPEN \<and> timers (fire_during fired s) = [t])
       \<or> (state (cb (fire_during fired s)) = STATE_HALF_OPEN \<and> timers (fire_during fired s) = [])"
  using assms
proof (induction fired arbitrary: s)
  case Nil
  then show ?case by (simp add: fire_during_Nil)
next
  case (Cons i fired)
  show ?case
  proof (cases "i < length (timers s)")
    case True
    with Cons.prems have i: "i = 0" by simp
    let ?s' = "s\<lparr>cb := (cb s)\<lparr>state := STATE_HALF_OPEN\<rparr>,
                  sends := sends s @ map (\<lambda>reader. (reader, available s)) (events (cb s)),
                  timers := []\<rparr>"
    have "TimerFire i s = Some ?s'"
      using Cons.prems i by (simp add: TimerFire_eq drop_at_def)
    then have "fire_during (i # fired) s = ?s'"
      by (simp add: fire_during_Cons fire_during_none)
    then show ?thesis by simp
  next
    case False
    then have "TimerFire i s = None"
      by (simp add: TimerFire_def)
    with Cons show ?thesis
      by (simp add: fire_during_Cons)
  qed
qed

lemma Failure_enters_open:
  assumes "snd r = [] \<or> timers s = []"
    and "state (cb s) \<noteq> STATE_OPEN" and "state (cb (Failure r s)) = STATE_OPEN"
  shows "timers (Failure r s) = timers s @ [TimeoutState (options (cb s))]"
proof -
  consider "state (cb s) = STATE_CLOSE" "LimitFailure (options (cb s)) < consecFailures (cb s) + 1"
    | "state (cb s) = STATE_CLOSE" "\<not> LimitFailure (options (cb s)) < consecFailures (cb s) + 1"
    | "state (cb s) = STATE_HALF_OPEN"
    | "state (cb s) \<noteq> STATE_CLOSE" "state (cb s) \<noteq> STATE_HALF_OPEN"
    by blast
  then show ?thesis
  proof cases
    case 1
    from assms(1) show ?thesis
    proof
      assume "snd r = []"
      then show ?thesis by (simp add: Failure_trips [OF 1])
    next
      assume e: "timers s = []"
      let ?t = "TimeoutState (options (cb s))"
      let ?s5 = "s\<lparr>cb := (cb s)\<lparr>counter := (counter (cb s))
                 \<lparr>TotalFailures := TotalFailures (counter (cb s)) + 1\<rparr>,
                 consecFailures := consecFailures (cb s) + 1,
                 state := STATE_OPEN\<rparr>,
                 timers := timers s @ [?t]\<rparr>"
      let ?a = "?s5\<lparr>sends := sends ?s5 @ map (\<lambda>reader. (reader, unavailable s)) (take (fst r) (events (cb ?s5)))\<rparr>"
      let ?s6 = "SendEvent_during r (unavailable s) ?s5"
      have "timers ?a = [?t]" and "state (cb ?a) = STATE_OPEN"
        using e by simp_all
      from fire_during_single [OF this, of "snd r"]
      have "(state (cb ?s6) = STATE_OPEN \<and> timers ?s6 = [?t])
          \<or> (state (cb ?s6) = STATE_HALF_OPEN \<and> timers ?s6 = [])"
        by (simp add: SendEvent_during_eq Let_def)
      then show ?thesis
        using e by (auto simp: Failure_racing [OF 1] Let_def state_consts)
    qed
  next
    case 2
    with assms(3) show ?thesis
      by (simp add: Failure_below state_consts)
  next
    case 3
    then show ?thesis by (simp add: Failure_half)
  next
    case 4
    with assms(2,3) show ?thesis by (simp add: Failure_other)
  qed
qed

subsection \<open>The ways through Execute\<close>

lemma Execute_cases:
  assumes "Execute handle timeout first part r s = Some (response, s')"
    and "s1 = s\<lparr>cb := (cb s)\<lparr>counter := (counter (cb s))
                 \<lparr>TotalRequests := TotalRequests (counter (cb s)) + 1\<rparr>\<rparr>\<rparr>"
  shows "(state (cb s) = STATE_OPEN
            \<and> response = \<lparr>Data = None, Error = Some ErrorServiceUnavailable\<rparr> \<and> s' = Reject s1)
       \<or> (state (cb s) \<noteq> STATE_OPEN \<and> (timeout = 0 \<or> first = HandleDone)
            \<and> (\<exists>s3. handle s1 = Some (response, s3)
                  \<and> s' = (if Error response \<noteq> None then Failure r s3 else Success s3)))
       \<or> (state (cb s) \<noteq> STATE_OPEN \<and> timeout \<noteq> 0
            \<and> (first = TimerExpired \<or> handle s1 = None)
            \<and> response = \<lparr>Data = None, Error = Some ErrorTimeoutExecute\<rparr>
            \<and> s' = Failure r (part s1))"
proof (cases "state (cb s) = STATE_OPEN")
  case True
  with assms show ?thesis
    by (simp add: Execute_def state_tests)
next
  case False
  show ?thesis
  proof (cases "timeout = 0")
    case True
    with False assms show ?thesis
      by (auto simp: Execute_def state_tests Let_def split: option.splits if_splits)
  next
    case nz: False
    show ?thesis
    proof (cases "handle s1")
      case None
      with False nz assms show ?thesis
        by (auto simp: Execute_def state_tests Let_def)
    next
      case (Some p)
      obtain r' s3 where p: "p = (r', s3)" by (cases p)
      show ?thesis
      proof (cases first)
        case HandleDone
        with False nz assms Some p show ?thesis
          by (auto simp: Execute_def state_tests Let_def split: if_splits)
      next
        case TimerExpired
        with False nz assms Some p show ?thesis
          by (auto simp: Execute_def state_tests Let_def)
      qed
    qed
  qed
qed

lemma Execute_returns:
  assumes "state (cb s) = STATE_OPEN \<or> timeout \<noteq> 0 \<or> handle (asked s) \<noteq> None"
  shows "Execute handle timeout first part r s \<noteq> None"
  using assms
  by (auto simp: Execute_def asked_def state_tests Let_def split: option.splits select_case.splits)

lemma Execute_counter:
  assumes "keeps_counter handle" and "part_keeps_counter part"
    and "Execute handle timeout first part r s = Some (response, s')"
  shows "counter (cb s') =
      (if state (cb s) = STATE_OPEN
       then (counter (cb s))\<lparr>TotalRequests := TotalRequests (counter (cb s)) + 1,
                              TotalRejects := TotalRejects (counter (cb s)) + 1\<rparr>
       else if Error response \<noteq> None
       then (counter (cb s))\<lparr>TotalRequests := TotalRequests (counter (cb s)) + 1,
                              TotalFailures := TotalFailures (counter (cb s)) + 1\<rparr>
       else (counter (cb s))\<lparr>TotalRequests := TotalRequests (counter (cb s)) + 1,
                              TotalSucceses := TotalSucceses (counter (cb s)) + 1\<rparr>)"
proof -
  let ?s1 = "s\<lparr>cb := (cb s)\<lparr>counter := (counter (cb s))
                 \<lparr>TotalRequests := TotalRequests (counter (cb s)) + 1\<rparr>\<rparr>\<rparr>"
  from Execute_cases [OF assms(3) refl]
  consider "state (cb s) = STATE_OPEN" "s' = Reject ?s1"
    | "state (cb s) \<noteq> STATE_OPEN" "response = \<lparr>Data = None, Error = Some ErrorTimeoutExecute\<rparr>"
        "s' = Failure r (part ?s1)"
    | s3 where "state (cb s) \<noteq> STATE_OPEN" "handle ?s1 = Some (response, s3)"
        "s' = (if Error response \<noteq> None then Failure r s3 else Success s3)"
    by blast
  then show ?thesis
  proof cases
    case 1
    then show ?thesis by (simp add: Reject_counter)
  next
    case 2
    have "counter (cb (part ?s1)) = counter (cb ?s1)"
      using assms(2) unfolding part_keeps_counter_def by blast
    with 2 show ?thesis by (simp add: Failure_counter)
  next
    case 3
    from 3(2) assms(1) have "counter (cb s3) = counter (cb ?s1)"
      unfolding keeps_counter_def by blast
    with 3(1,3) show ?thesis
      by (simp add: Failure_counter Success_counter)
  qed
qed

subsection \<open>Invariants of runs\<close>

lemma tidy_frame: "tidy s \<Longrightarrow> state (cb s') = state (cb s) \<Longrightarrow> timers s' = timers s \<Longrightarrow> tidy s'"
  by (simp add: tidy_def)

lemma tidy_Success:
  assumes "tidy s"
  shows "tidy (Success s)"
  using assms by (simp add: tidy_def Success_timers Success_state state_consts)

lemma tidy_TimerFire:
  assumes "tidy s"
    and "TimerFire i s = Some s'"
  shows "tidy s'"
proof -
  have i: "i < length (timers s)"
    using assms(2) by (simp add: TimerFire_def split: if_splits)
  with assms(1) have o: "state (cb s) = STATE_OPEN" and l: "length (timers s) = 1"
    by (auto simp: tidy_def)
  from i l have "drop_at i (timers s) = []"
    by (cases "timers s") (auto simp: drop_at_def)
  with assms(2) i o show ?thesis
    by (auto simp: tidy_def TimerFire_eq state_consts)
qed

lemma tidy_fire_during: "tidy s \<Longrightarrow> tidy (fire_during fired s)"
proof (induction fired arbitrary: s)
  case Nil
  then show ?case by (simp add: fire_during_Nil)
next
  case (Cons i fired)
  then show ?case
    by (cases "TimerFire i s") (auto simp: fire_during_Cons dest: tidy_TimerFire)
qed

lemma tidy_SendEvent_during: "tidy s \<Longrightarrow> tidy (SendEvent_during r e s)"
proof -
  assume t: "tidy s"
  let ?a = "s\<lparr>sends := sends s @ map (\<lambda>reader. (reader, e)) (take (fst r) (events (cb s)))\<rparr>"
  have "tidy ?a"
    using t by (simp add: tidy_def)
  then have "tidy (fire_during (snd r) ?a)"
    by (rule tidy_fire_during)
  then show ?thesis
    by (simp add: SendEvent_during_eq Let_def tidy_def)
qed

lemma tidy_Failure:
  assumes "tidy s"
  shows "tidy (Failure r s)"
proof -
  consider "state (cb s) = STATE_CLOSE" "LimitFailure (options (cb s)) < consecFailures (cb s) + 1"
    | "state (cb s) = STATE_CLOSE" "\<not> LimitFailure (options (cb s)) < consecFailures (cb s) + 1"
    | "state (cb s) = STATE_HALF_OPEN"
    | "state (cb s) \<noteq> STATE_CLOSE" "state (cb s) \<noteq> STATE_HALF_OPEN"
    by blast
  then show ?thesis
  proof cases
    case 1
    let ?s5 = "s\<lparr>cb := (cb s)\<lparr>counter := (counter (cb s))
                 \<lparr>TotalFailures := TotalFailures (counter (cb s)) + 1\<rparr>,
                 consecFailures := consecFailures (cb s) + 1,
                 state := STATE_OPEN\<rparr>,
                 timers := timers s @ [TimeoutState (options (cb s))]\<rparr>"
    have "tidy ?s5"
      using assms 1 by (simp add: tidy_def state_consts)
    then have "tidy (SendEvent_during r (unavailable s) ?s5)"
      by (rule tidy_SendEvent_during)
    then show ?thesis
      by (simp add: Failure_racing [OF 1] Let_def) (simp add: tidy_def state_consts)
  next
    case 2
    with assms show ?thesis
      by (simp add: tidy_def Failure_below state_consts)
  next
    case 3
    with assms show ?thesis
      by (simp add: tidy_def Failure_half state_consts)
  next
    case 4
    with assms show ?thesis
      by (simp add: tidy_def Failure_other)
  qed
qed

lemma tidy_Execute:
  assumes "tidy s"
    and "keeps_state handle" and "part_keeps_state part"
    and "Execute handle timeout first part r s = Some (response, s')"
  shows "tidy s'"
proof -
  let ?s1 = "s\<lparr>cb := (cb s)\<lparr>counter := (counter (cb s))
                 \<lparr>TotalRequests := TotalRequests (counter (cb s)) + 1\<rparr>\<rparr>\<rparr>"
  have t1: "tidy ?s1"
    using assms(1) by (simp add: tidy_def)
  from Execute_cases [OF assms(4) refl]
  consider "s' = Reject ?s1" | "s' = Failure r (part ?s1)"
    | s3 where "handle ?s1 = Some (response, s3)" "s' = Failure r s3 \<or> s' = Success s3"
    by (auto split: if_splits)
  then show ?thesis
  proof cases
    case 1
    with t1 show ?thesis by (simp add: tidy_def Reject_state Reject_timers)
  next
    case 2
    have "state (cb (part ?s1)) = state (cb ?s1) \<and> timers (part ?s1) = timers ?s1"
      using assms(3) unfolding part_keeps_state_def by blast
    with t1 have "tidy (part ?s1)"
      by (simp add: tidy_def)
    with 2 show ?thesis by (simp add: tidy_Failure)
  next
    case 3
    then have "state (cb s3) = state (cb ?s1) \<and> timers s3 = timers ?s1"
      using assms(2) by (auto simp: keeps_state_def)
    with t1 have "tidy s3"
      by (simp add: tidy_def)
    with 3 show ?thesis
      using tidy_Failure tidy_Success by blast
  qed
qed

lemma tidy_step:
  assumes "tidy s"
    and "no_SetState a" and "step a s = Some s'"
  shows "tidy s'"
proof (cases a)
  case (DoExecute handle timeout first part r)
  with assms show ?thesis
    using tidy_Execute [of s handle part timeout first r] by auto
next
  case DoSuccess
  with assms show ?thesis using tidy_Success by auto
next
  case (DoFailure r)
  with assms(3) have "s' = Failure r s" by simp
  with assms(1) show ?thesis by (simp add: tidy_Failure)
next
  case DoReject
  with assms show ?thesis by (auto simp: tidy_def Reject_def)
next
  case (DoSetState x)
  with assms show ?thesis by simp
next
  case DoSubcriber
  with assms show ?thesis by (auto simp: tidy_def Subcriber_def)
next
  case (DoTimerFire i)
  with assms show ?thesis using tidy_TimerFire by auto
qed

lemma tidy_run:
  assumes "\<forall>a \<in> set acts. no_SetState a" and "run acts s = Some s'"
    and "tidy s"
  shows "tidy s'"
  using assms
proof (induction acts arbitrary: s)
  case Nil
  then show ?case by simp
next
  case (Cons a acts)
  from Cons.prems(2) obtain m where m: "step a s = Some m" and r: "run acts m = Some s'"
    by (auto split: option.splits)
  have "tidy m"
    using tidy_step [OF Cons.prems(3) _ m] Cons.prems(1) by simp
  with Cons.IH [OF _ r] Cons.prems(1) show ?case
    by simp
qed

lemma NewBreaker_state: "state (NewBreaker opts now) = STATE_CLOSE"
  by (simp add: NewBreaker_def Let_def)

lemma balanced_step:
  assumes "balanced s" and "Execute_or_timer a" and "step a s = Some s'"
  shows "balanced s'"
proof (cases a)
  case (DoExecute handle timeout first part r)
  with assms(3) obtain response where e: "Execute handle timeout first part r s = Some (response, s')"
    by auto
  from DoExecute assms(2) have "keeps_counter handle" and "part_keeps_counter part"
    by simp_all
  from Execute_counter [OF this e] assms(1) show ?thesis
    by (simp add: balanced_def split: if_splits)
next
  case (DoTimerFire i)
  with assms show ?thesis
    by (auto simp: balanced_def dest: TimerFire_fields(2))
qed (use assms in simp_all)

lemma balanced_run:
  assumes "\<forall>a \<in> set acts. Execute_or_timer a" and "run acts s = Some s'" and "balanced s"
  shows "balanced s'"
  using assms
proof (induction acts arbitrary: s)
  case Nil
  then show ?case by simp
next
  case (Cons a acts)
  from Cons.prems(2) obtain m where m: "step a s = Some m" and r: "run acts m = Some s'"
    by (auto split: option.splits)
  have "balanced m"
    using balanced_step [OF Cons.prems(3) _ m] Cons.prems(1) by simp
  with Cons.IH [OF _ r] Cons.prems(1) show ?case
    by simp
qed

subsection \<open>The examples\<close>

lemma itoa_ex: "Itoa 1700000000000000000 = ''1700000000000000000''"
  by (simp add: Itoa_def digit_char_def)

lemma fresh_eq:
  "fresh = \<lparr>cb = \<lparr>options = \<lparr>Attempts = 3, TimeoutState = 4000000000, LimitFailure = 5,
                      MaxRequests = 10000000, NameService = ''1700000000000000000''\<rparr>,
                  counter = \<lparr>TotalRequests = 0, TotalSucceses = 0, TotalFailures = 0, TotalRejects = 0\<rparr>,
                  events = [], state = 1, consecFailures = 0\<rparr>,
             sends = [], timers = []\<rparr>"
  by (simp add: fresh_def start_def NewBreaker_def zero_options_def Let_def Second_def itoa_ex
      STATE_CLOSE_def)

lemma watched_state: "state (cb watched) = STATE_CLOSE"
  by (simp add: watched_def fresh_def start_def NewBreaker_def Subcriber_def Let_def)

lemma watched_consec: "consecFailures (cb watched) = 0"
  by (simp add: watched_def fresh_def start_def NewBreaker_def Subcriber_def Let_def)

lemma watched_events: "events (cb watched) = [1, 2]"
  by (simp add: watched_def fresh_def start_def NewBreaker_def Subcriber_def fresh_chan_def Let_def)

lemma watched_sends: "sends watched = []"
  by (simp add: watched_def fresh_def start_def Subcriber_def)

lemma watched_timers: "timers watched = []"
  by (simp add: watched_def fresh_def start_def Subcriber_def)

lemma watched_options:
  "options (cb watched) = \<lparr>Attempts = 3, TimeoutState = 4000000000, LimitFailure = 5,
      MaxRequests = 10000000, NameService = ''1700000000000000000''\<rparr>"
  by (simp add: watched_def fresh_def start_def NewBreaker_def Subcriber_def zero_options_def
      Let_def Second_def itoa_ex)


lemma watched_open_state: "state (cb watched_open) = STATE_OPEN"
  by (simp add: watched_open_def StartTimerChangeState_def SetState_def)

lemma watched_open_eq:
  "watched_open = watched\<lparr>cb := (cb watched)\<lparr>state := STATE_OPEN\<rparr>, timers := [4000000000]\<rparr>"
  by (simp add: watched_open_def StartTimerChangeState_def SetState_def watched_timers watched_options)

lemma watched_half_state: "state (cb watched_half) = STATE_HALF_OPEN"
  by (simp add: watched_half_def SetState_def)

lemma unlimited_state: "state (cb unlimited) = STATE_CLOSE"
  by (simp add: unlimited_def start_def NewBreaker_def Let_def)

lemma unlimited_limit: "LimitFailure (options (cb unlimited)) = - 1"
  by (simp add: unlimited_def start_def NewBreaker_def Let_def zero_options_def)

lemma keeps_state_op_bad: "keeps_state op_bad"
  by (simp add: keeps_state_def op_bad_def)

lemma keeps_counter_op_bad: "keeps_counter op_bad"
  by (simp add: keeps_counter_def op_bad_def)

lemma keeps_counter_op_ok: "keeps_counter op_ok"
  by (simp add: keeps_counter_def op_ok_def)

lemma part_keeps_state_id: "part_keeps_state id"
  by (simp add: part_keeps_state_def)

lemma part_keeps_counter_id: "part_keeps_counter id"
  by (simp add: part_keeps_counter_def)

lemmas run_eval = Execute_def Failure_def Success_def Reject_def TimerFire_def SetState_def
  StartTimerChangeState_def SendEvent_def SendEvent_during_def fire_during_def quiet_def
  IsOpen_def IsClose_def IsHalfOpen_def GetState_def
  STATE_CLOSE_def STATE_OPEN_def STATE_HALF_OPEN_def Let_def drop_at_def

lemma hasty_eq:
  "hasty = \<lparr>cb = \<lparr>options = \<lparr>Attempts = 3, TimeoutState = 1, LimitFailure = 1,
                      MaxRequests = 10000000, NameService = ''1700000000000000000''\<rparr>,
                  counter = \<lparr>TotalRequests = 0, TotalSucceses = 0, TotalFailures = 1, TotalRejects = 0\<rparr>,
                  events = [1], state = 1, consecFailures = 1\<rparr>,
             sends = [], timers = []\<rparr>"
  by (simp add: hasty_def start_def NewBreaker_def zero_options_def Subcriber_def fresh_chan_def
      itoa_ex run_eval)

lemma hasty_races:
  "Failure (1, [0]) hasty =
     hasty\<lparr>cb := (cb hasty)\<lparr>counter :=
              \<lparr>TotalRequests = 0, TotalSucceses = 0, TotalFailures = 2, TotalRejects = 0\<rparr>,
              state := 3, consecFailures := 2\<rparr>,
           sends := [(1, \<lparr>Code = 0, Message = ''Service 1700000000000000000 is unavailable''\<rparr>),
                     (1, \<lparr>Code = 1, Message = ''Service 1700000000000000000 is available''\<rparr>),
                     (1, \<lparr>Code = 0, Message = ''Service 1700000000000000000 is unavailable''\<rparr>)],
           timers := [1]\<rparr>"
  by (simp add: hasty_eq run_eval send_on_def unavailable_def available_def
      SERVICE_UNAVAILABLE_def SERVICE_AVAILABLE_def)

lemma six_bad:
  "run [bad_call, bad_call, bad_call, bad_call, bad_call, bad_call_racing] fresh
   = Some (fresh\<lparr>cb := (cb fresh)\<lparr>counter :=
              \<lparr>TotalRequests = 6, TotalSucceses = 0, TotalFailures = 6, TotalRejects = 0\<rparr>,
              state := 3, consecFailures := 6\<rparr>, timers := [4000000000]\<rparr>)"
  by (simp add: fresh_eq op_bad_def bad_call_def bad_call_racing_def run_eval)

lemma scenario:
  "run [bad_call, bad_call, bad_call, bad_call, bad_call, bad_call,
        ok_call, DoTimerFire 0, ok_call] fresh
   = Some (fresh\<lparr>cb := (cb fresh)\<lparr>counter :=
              \<lparr>TotalRequests = 8, TotalSucceses = 1, TotalFailures = 6, TotalRejects = 1\<rparr>\<rparr>\<rparr>)"
  by (simp add: fresh_eq op_bad_def op_ok_def bad_call_def ok_call_def run_eval)

lemma first_bad:
  "Execute op_bad 0 HandleDone id quiet fresh =
     Some (\<lparr>Data = None, Error = Some ''Bad response status from httpbin server''\<rparr>,
           fresh\<lparr>cb := (cb fresh)\<lparr>counter :=
              \<lparr>TotalRequests = 1, TotalSucceses = 0, TotalFailures = 1, TotalRejects = 0\<rparr>,
              consecFailures := 1\<rparr>\<rparr>)"
  by (simp add: fresh_eq op_bad_def run_eval)

section \<open>The claims\<close>

subsection \<open>The threshold\<close>

text \<open>Claim C1, amended. Let the state be Closed with a count of consecutive failures
  of 0, and let the threshold \<open>L\<close> be below the largest \<open>uint32\<close>. After any
  \<open>N \<le> L\<close> calls of \<open>Failure\<close> in a row, whatever the timers do meanwhile, the
  state is still Closed, nothing has been sent and no timer started. If no timer fires
  while call number \<open>L + 1\<close> is sending, that call sets the state to Open, sends one
  Unavailable event on every registered channel and starts one timer.\<close>

theorem threshold_trips:
  assumes "state (cb s) = STATE_CLOSE" and "consecFailures (cb s) = 0"
    and "LimitFailure (options (cb s)) = L" and "unat L < 4294967295"
  shows "(length rs \<le> unat L \<longrightarrow>
            state (cb (fold Failure rs s)) = STATE_CLOSE
            \<and> sends (fold Failure rs s) = sends s
            \<and> timers (fold Failure rs s) = timers s)
       \<and> (length rs = unat L \<and> snd r = [] \<longrightarrow>
            Failure r (fold Failure rs s) =
              s\<lparr>cb := (cb s)\<lparr>counter := (counter (cb s))
                      \<lparr>TotalFailures := TotalFailures (counter (cb s)) + L + 1\<rparr>,
                      consecFailures := L + 1,
                      state := STATE_OPEN\<rparr>,
                timers := timers s @ [TimeoutState (options (cb s))],
                sends := sends s @ map (\<lambda>reader. (reader, unavailable s)) (events (cb s))\<rparr>)"
proof (intro conjI impI)
  assume "length rs \<le> unat L"
  then have *: "length rs \<le> unat (LimitFailure (options (cb s)))"
    using assms(3) by simp
  show "state (cb (fold Failure rs s)) = STATE_CLOSE"
    by (simp add: Failure_fold_closed [OF assms(1,2) *] assms(1))
  show "sends (fold Failure rs s) = sends s"
    by (simp add: Failure_fold_closed [OF assms(1,2) *])
  show "timers (fold Failure rs s) = timers s"
    by (simp add: Failure_fold_closed [OF assms(1,2) *])
next
  assume a: "length rs = unat L \<and> snd r = []"
  let ?p = "s\<lparr>cb := (cb s)\<lparr>counter := (counter (cb s))
                       \<lparr>TotalFailures := TotalFailures (counter (cb s)) + L\<rparr>,
                       consecFailures := L\<rparr>\<rparr>"
  have "length rs \<le> unat (LimitFailure (options (cb s)))"
    using assms(3) a by simp
  from Failure_fold_closed [OF assms(1,2) this]
  have p: "fold Failure rs s = ?p" using a by simp
  have "unat (- 1 :: uint32) = 4294967295"
    by (simp add: unsigned_minus_1_eq_mask mask_eq_exp_minus_1)
  then have "L \<noteq> - 1"
    using assms(4) by auto
  then have "L < L + 1"
    by (rule word_succ_greater)
  then have "Failure r ?p = ?p\<lparr>cb := (cb ?p)\<lparr>counter := (counter (cb ?p))
                 \<lparr>TotalFailures := TotalFailures (counter (cb ?p)) + 1\<rparr>,
                 consecFailures := consecFailures (cb ?p) + 1,
                 state := STATE_OPEN\<rparr>,
                 timers := timers ?p @ [TimeoutState (options (cb ?p))],
                 sends := sends ?p @ map (\<lambda>r. (r, unavailable ?p)) (events (cb ?p))\<rparr>"
    using assms(1,3) a by (intro Failure_trips) simp_all
  then show "Failure r (fold Failure rs s) =
              s\<lparr>cb := (cb s)\<lparr>counter := (counter (cb s))
                      \<lparr>TotalFailures := TotalFailures (counter (cb s)) + L + 1\<rparr>,
                      consecFailures := L + 1,
                      state := STATE_OPEN\<rparr>,
                timers := timers s @ [TimeoutState (options (cb s))],
                sends := sends s @ map (\<lambda>reader. (reader, unavailable s)) (events (cb s))\<rparr>"
    by (simp add: p unavailable_def)
qed

theorem threshold_trips_witness:
  "state (cb watched) = STATE_CLOSE \<and> consecFailures (cb watched) = 0
   \<and> LimitFailure (options (cb watched)) = 5
   \<and> state (cb (fold Failure [quiet, (1, [0]), quiet, (0, [0, 0]), quiet] watched)) = STATE_CLOSE
   \<and> sends (fold Failure [quiet, (1, [0]), quiet, (0, [0, 0]), quiet] watched) = []
   \<and> state (cb (Failure quiet (fold Failure [quiet, (1, [0]), quiet, (0, [0, 0]), quiet] watched)))
       = STATE_OPEN
   \<and> timers (Failure quiet (fold Failure [quiet, (1, [0]), quiet, (0, [0, 0]), quiet] watched))
       = [4000000000]
   \<and> sends (Failure quiet (fold Failure [quiet, (1, [0]), quiet, (0, [0, 0]), quiet] watched)) =
       [(1, \<lparr>Code = 0, Message = ''Service 1700000000000000000 is unavailable''\<rparr>),
        (2, \<lparr>Code = 0, Message = ''Service 1700000000000000000 is unavailable''\<rparr>)]"
proof -
  let ?rs = "[quiet, (1, [0]), quiet, (0, [0, 0]), quiet] :: race list"
  have L: "LimitFailure (options (cb watched)) = 5"
    by (simp add: watched_options)
  have b: "unat (5 :: uint32) < 4294967295"
    by simp
  note t = threshold_trips [OF watched_state watched_consec L b, of ?rs quiet]
  from t have "state (cb (fold Failure ?rs watched)) = STATE_CLOSE
      \<and> sends (fold Failure ?rs watched) = sends watched"
    by (simp)
  moreover from t have "Failure quiet (fold Failure ?rs watched) =
       watched\<lparr>cb := (cb watched)\<lparr>counter := (counter (cb watched))
                   \<lparr>TotalFailures := TotalFailures (counter (cb watched)) + 5 + 1\<rparr>,
                   consecFailures := 5 + 1,
                   state := STATE_OPEN\<rparr>,
             timers := timers watched @ [TimeoutState (options (cb watched))],
             sends := sends watched @ map (\<lambda>reader. (reader, unavailable watched)) (events (cb watched))\<rparr>"
    by (simp add: quiet_def)
  ultimately show ?thesis
    by (simp add: watched_state watched_consec watched_options watched_sends watched_timers
        watched_events unavailable_def SERVICE_UNAVAILABLE_def)
qed

text \<open>Claim C1 as stated fails at the largest threshold: the count is a \<open>uint32\<close>
  too, it never exceeds that threshold and wraps around to 0, so the breaker is still
  Closed after \<open>L + 1\<close> failures in a row. It fails as well when the timer that the
  tripping call has started fires while the call is sending: the state is HalfOpen at
  the later test of the same call, which opens the breaker once more and sends a second
  Unavailable event.\<close>

theorem threshold_trips_counterexample:
  "state (cb unlimited) = STATE_CLOSE \<and> consecFailures (cb unlimited) = 0
   \<and> LimitFailure (options (cb unlimited)) = 4294967295
   \<and> state (cb ((Failure quiet ^^ (4294967295 + 1)) unlimited)) \<noteq> STATE_OPEN
   \<and> timers ((Failure quiet ^^ (4294967295 + 1)) unlimited) = []
   \<and> state (cb hasty) = STATE_CLOSE \<and> consecFailures (cb hasty) = LimitFailure (options (cb hasty))
   \<and> events (cb hasty) = [1] \<and> sends hasty = []
   \<and> sends (Failure (1, [0]) hasty) =
       [(1, \<lparr>Code = 0, Message = ''Service 1700000000000000000 is unavailable''\<rparr>),
        (1, \<lparr>Code = 1, Message = ''Service 1700000000000000000 is available''\<rparr>),
        (1, \<lparr>Code = 0, Message = ''Service 1700000000000000000 is unavailable''\<rparr>)]"
proof -
  have "state (cb ((Failure quiet ^^ (4294967295 + 1)) unlimited)) = STATE_CLOSE"
    and "timers ((Failure quiet ^^ (4294967295 + 1)) unlimited) = timers unlimited"
    using Failure_never_trips [OF unlimited_state unlimited_limit] by blast+
  moreover have "consecFailures (cb unlimited) = 0" and "timers unlimited = []"
    by (simp_all add: unlimited_def start_def NewBreaker_def Let_def)
  moreover have "LimitFailure (options (cb unlimited)) = 4294967295"
    using unlimited_limit by simp
  moreover have "state (cb hasty) = STATE_CLOSE"
    "consecFailures (cb hasty) = LimitFailure (options (cb hasty))"
    "events (cb hasty) = [1]" "sends hasty = []"
    by (simp_all add: hasty_eq STATE_CLOSE_def)
  moreover have "sends (Failure (1, [0]) hasty) =
       [(1, \<lparr>Code = 0, Message = ''Service 1700000000000000000 is unavailable''\<rparr>),
        (1, \<lparr>Code = 1, Message = ''Service 1700000000000000000 is available''\<rparr>),
        (1, \<lparr>Code = 0, Message = ''Service 1700000000000000000 is unavailable''\<rparr>)]"
    by (subst hasty_races) simp
  ultimately show ?thesis
    by (simp add: unlimited_state state_consts)
qed

subsection \<open>Rejection while Open\<close>

text \<open>Claim C2. If the state is Open when \<open>Execute\<close> is called, then for every
  operation, timeout and outcome of the races the call returns the ServiceUnavailable
  error with no data, and the breaker after the call is the breaker before it with
  one more request and one more reject: the operation is not called (nothing it would
  do is there), and the state, the count of consecutive failures and the success and
  failure counters are as before.\<close>

theorem open_rejects:
  assumes "state (cb s) = STATE_OPEN"
  shows "Execute handle timeout first part r s =
         Some (\<lparr>Data = None, Error = Some ErrorServiceUnavailable\<rparr>,
               s\<lparr>cb := (cb s)\<lparr>counter := (counter (cb s))
                   \<lparr>TotalRequests := TotalRequests (counter (cb s)) + 1,
                    TotalRejects := TotalRejects (counter (cb s)) + 1\<rparr>\<rparr>\<rparr>)"
  using assms by (simp add: Execute_def state_tests Reject_def)

theorem open_rejects_witness:
  "state (cb watched_open) = STATE_OPEN
   \<and> op_meddle watched_open \<noteq> Some (\<lparr>Data = Some ''curl'', Error = None\<rparr>, watched_open)
   \<and> Execute op_meddle 0 HandleDone (Failure quiet) (1, [0]) watched_open =
       Some (\<lparr>Data = None, Error = Some ''Service is unavailable''\<rparr>,
             watched_open\<lparr>cb := (cb watched_open)\<lparr>counter :=
                \<lparr>TotalRequests = 1, TotalSucceses = 0, TotalFailures = 0, TotalRejects = 1\<rparr>\<rparr>\<rparr>)"
proof -
  have c: "counter (cb watched_open) = \<lparr>TotalRequests = 0, TotalSucceses = 0, TotalFailures = 0, TotalRejects = 0\<rparr>"
    by (simp add: watched_open_def watched_def fresh_def start_def NewBreaker_def
        Subcriber_def StartTimerChangeState_def SetState_def Let_def)
  have "TotalFailures (counter (cb (Failure quiet watched_open))) \<noteq> TotalFailures (counter (cb watched_open))"
    by (simp add: Failure_counter)
  then have "Failure quiet watched_open \<noteq> watched_open"
    by auto
  then show ?thesis
    using open_rejects [OF watched_open_state, of op_meddle 0 HandleDone "Failure quiet" "(1, [0])"]
    by (simp add: c watched_open_state ErrorServiceUnavailable_def op_meddle_def)
qed

subsection \<open>Half open\<close>

text \<open>Claim C3. While the state is HalfOpen, one \<open>Success\<close> sets the state to Closed
  and the count of consecutive failures to 0, and one \<open>Failure\<close> sets the state to
  Open whatever the count and the threshold are, sends one Unavailable event on every
  registered channel and starts one new timer of length \<open>TimeoutState\<close>.\<close>

theorem half_open_decides:
  assumes "state (cb s) = STATE_HALF_OPEN"
  shows "Success s = s\<lparr>cb := (cb s)\<lparr>counter := (counter (cb s))
                       \<lparr>TotalSucceses := TotalSucceses (counter (cb s)) + 1\<rparr>,
                       state := STATE_CLOSE, consecFailures := 0\<rparr>\<rparr>
       \<and> Failure r s = s\<lparr>cb := (cb s)\<lparr>counter := (counter (cb s))
                       \<lparr>TotalFailures := TotalFailures (counter (cb s)) + 1\<rparr>,
                       state := STATE_OPEN\<rparr>,
                     timers := timers s @ [TimeoutState (options (cb s))],
                     sends := sends s @ map (\<lambda>reader. (reader, unavailable s)) (events (cb s))\<rparr>"
  using assms by (simp add: Success_half Failure_half)

theorem half_open_decides_witness:
  "state (cb watched_half) = STATE_HALF_OPEN
   \<and> state (cb (Success watched_half)) = STATE_CLOSE
   \<and> consecFailures (cb (Success watched_half)) = 0
   \<and> state (cb (Failure (1, [0]) watched_half)) = STATE_OPEN
   \<and> timers (Failure (1, [0]) watched_half) = [4000000000]
   \<and> sends (Failure (1, [0]) watched_half) =
       [(1, \<lparr>Code = 0, Message = ''Service 1700000000000000000 is unavailable''\<rparr>),
        (2, \<lparr>Code = 0, Message = ''Service 1700000000000000000 is unavailable''\<rparr>)]"
  using half_open_decides [OF watched_half_state, of "(1, [0])"]
  by (simp add: watched_half_def SetState_def watched_events watched_sends watched_timers
      watched_options unavailable_def SERVICE_UNAVAILABLE_def)

subsection \<open>Waiting for the operation, or not\<close>




subsection \<open>The timer fires\<close>

text \<open>Claim C5. A \<open>Failure\<close> that enters Open leaves one more pending action, with
  the delay \<open>TimeoutState\<close>, when no timer fires during the call or none was pending
  before it; every \<open>StartTimerChangeState\<close> starts one. A pending action fires
  once: firing removes it from the pending ones. When it fires with the state still
  Open, the state becomes HalfOpen and one Available event is sent on every registered
  channel; with any other state the breaker is unchanged and nothing is sent. An action
  that is not pending does not fire. Time is the delay the action was started with.\<close>

theorem timer_fires:
  "((snd r = [] \<or> timers s = []) \<and> state (cb s) \<noteq> STATE_OPEN
      \<and> state (cb (Failure r s)) = STATE_OPEN \<longrightarrow>
      timers (Failure r s) = timers s @ [TimeoutState (options (cb s))])
   \<and> timers (StartTimerChangeState s) = timers s @ [TimeoutState (options (cb s))]
   \<and> (i < length (timers s) \<longrightarrow>
        (\<exists>s'. TimerFire i s = Some s'
           \<and> timers s' = drop_at i (timers s)
           \<and> length (timers s') = length (timers s) - 1
           \<and> (state (cb s) = STATE_OPEN \<longrightarrow>
                cb s' = (cb s)\<lparr>state := STATE_HALF_OPEN\<rparr>
                \<and> sends s' = sends s @ map (\<lambda>reader. (reader, available s)) (events (cb s)))
           \<and> (state (cb s) \<noteq> STATE_OPEN \<longrightarrow> cb s' = cb s \<and> sends s' = sends s)))
   \<and> (length (timers s) \<le> i \<longrightarrow> TimerFire i s = None)"
proof (intro conjI impI)
  show "timers (StartTimerChangeState s) = timers s @ [TimeoutState (options (cb s))]"
    by (simp add: StartTimerChangeState_def)
next
  assume "(snd r = [] \<or> timers s = []) \<and> state (cb s) \<noteq> STATE_OPEN
      \<and> state (cb (Failure r s)) = STATE_OPEN"
  then show "timers (Failure r s) = timers s @ [TimeoutState (options (cb s))]"
    by (simp add: Failure_enters_open)
next
  assume "i < length (timers s)"
  then show "\<exists>s'. TimerFire i s = Some s'
           \<and> timers s' = drop_at i (timers s)
           \<and> length (timers s') = length (timers s) - 1
           \<and> (state (cb s) = STATE_OPEN \<longrightarrow>
                cb s' = (cb s)\<lparr>state := STATE_HALF_OPEN\<rparr>
                \<and> sends s' = sends s @ map (\<lambda>reader. (reader, available s)) (events (cb s)))
           \<and> (state (cb s) \<noteq> STATE_OPEN \<longrightarrow> cb s' = cb s \<and> sends s' = sends s)"
    by (simp add: TimerFire_eq length_drop_at)
next
  assume "length (timers s) \<le> i"
  then show "TimerFire i s = None"
    by (simp add: TimerFire_def)
qed

theorem timer_fires_witness:
  "state (cb watched_open) = STATE_OPEN \<and> timers watched_open = [4000000000]
   \<and> TimerFire 0 watched_open =
       Some (watched\<lparr>cb := (cb watched)\<lparr>state := STATE_HALF_OPEN\<rparr>,
               sends := [(1, \<lparr>Code = 1, Message = ''Service 1700000000000000000 is available''\<rparr>),
                         (2, \<lparr>Code = 1, Message = ''Service 1700000000000000000 is available''\<rparr>)],
               timers := []\<rparr>)
   \<and> state (cb (SetState STATE_CLOSE watched_open)) \<noteq> STATE_OPEN
   \<and> TimerFire 0 (SetState STATE_CLOSE watched_open) = Some watched
   \<and> TimerFire 1 watched_open = None
   \<and> timers hasty = [] \<and> state (cb hasty) \<noteq> STATE_OPEN
   \<and> state (cb (Failure (1, [0]) hasty)) = STATE_OPEN
   \<and> timers (Failure (1, [0]) hasty) = [1]"
proof -
  have 1: "TimerFire 0 watched_open =
       Some (watched\<lparr>cb := (cb watched)\<lparr>state := STATE_HALF_OPEN\<rparr>,
               sends := [(1, \<lparr>Code = 1, Message = ''Service 1700000000000000000 is available''\<rparr>),
                         (2, \<lparr>Code = 1, Message = ''Service 1700000000000000000 is available''\<rparr>)],
               timers := []\<rparr>)"
    using timer_fires [of quiet watched_open 0]
    by (auto simp: watched_open_eq watched_events watched_sends watched_options available_def
        SERVICE_AVAILABLE_def drop_at_def)
  have 2: "TimerFire 0 (SetState STATE_CLOSE watched_open) = Some watched"
    using timer_fires [of quiet "SetState STATE_CLOSE watched_open" 0] watched_state
    by (auto simp: watched_open_eq SetState_def state_consts drop_at_def watched_timers)
  have 3: "TimerFire 1 watched_open = None"
    using timer_fires [of quiet watched_open 1] by (simp add: watched_open_eq)
  have 4: "state (cb (Failure (1, [0]) hasty)) = STATE_OPEN"
    by (subst hasty_races) (simp add: STATE_OPEN_def)
  have 5: "state (cb hasty) \<noteq> STATE_OPEN" "timers hasty = []"
    by (simp_all add: hasty_eq state_consts)
  have 6: "timers (Failure (1, [0]) hasty) = [1]"
    using timer_fires [of "(1, [0])" hasty 0] 4 5
    by (simp add: hasty_eq)
  show ?thesis
    using 1 2 3 4 5 6 by (simp add: watched_open_eq SetState_def state_consts)
qed

subsection \<open>One pending timer while Open\<close>

text \<open>Claim C6, amended. In every configuration that a run from \<open>NewBreaker\<close> reaches
  by \<open>Execute\<close>, \<open>Success\<close>, \<open>Failure\<close>, \<open>Reject\<close>, \<open>Subcriber\<close> and timer
  firings, between the calls or during them, without \<open>SetState\<close> and with operations
  that leave the state and the timers alone, if the state is Open then exactly one
  timer is pending.\<close>

theorem open_has_one_timer:
  assumes "\<forall>a \<in> set acts. no_SetState a"
    and "run acts (start (NewBreaker opts now)) = Some s"
    and "state (cb s) = STATE_OPEN"
  shows "length (timers s) = 1"
proof -
  have "tidy (start (NewBreaker opts now))"
    by (simp add: tidy_def start_def NewBreaker_state state_consts)
  from tidy_run [OF assms(1,2) this] assms(3) show ?thesis
    by (simp add: tidy_def)
qed

theorem open_has_one_timer_witness:
  "keeps_state op_bad \<and> part_keeps_state id
   \<and> map_option (\<lambda>s. (state (cb s), timers s))
        (run [bad_call, bad_call, bad_call, bad_call, bad_call, bad_call_racing] fresh)
       = Some (STATE_OPEN, [4000000000])
   \<and> length [4000000000 :: Duration] = 1"
proof -
  let ?acts = "[bad_call, bad_call, bad_call, bad_call, bad_call, bad_call_racing]"
  let ?s = "fresh\<lparr>cb := (cb fresh)\<lparr>counter :=
              \<lparr>TotalRequests = 6, TotalSucceses = 0, TotalFailures = 6, TotalRejects = 0\<rparr>,
              state := 3, consecFailures := 6\<rparr>, timers := [4000000000]\<rparr>"
  have a: "\<forall>a \<in> set ?acts. no_SetState a"
    by (simp add: bad_call_def bad_call_racing_def keeps_state_op_bad part_keeps_state_id)
  have r: "run ?acts (start (NewBreaker (Some zero_options) 1700000000000000000)) = Some ?s"
    using six_bad by (simp add: fresh_def)
  have o: "state (cb ?s) = STATE_OPEN"
    by (simp add: STATE_OPEN_def)
  have m: "map_option (\<lambda>s. (state (cb s), timers s)) (run ?acts fresh) = Some (STATE_OPEN, timers ?s)"
    unfolding six_bad by (simp add: STATE_OPEN_def)
  from open_has_one_timer [OF a r o] m show ?thesis
    by (simp add: keeps_state_op_bad part_keeps_state_id del: run.simps)
qed

text \<open>Claim C6 as stated fails with \<open>SetState\<close>: it sets Open and starts no timer,
  and a \<open>Failure\<close> after \<open>SetState(STATE_HALF_OPEN)\<close> in an Open breaker starts a
  second timer beside the first.\<close>

theorem open_has_one_timer_counterexample:
  "map_option (\<lambda>s. (state (cb s), length (timers s)))
     (run [DoSetState STATE_OPEN :: string action] fresh) = Some (STATE_OPEN, 0)
   \<and> map_option (\<lambda>s. (state (cb s), length (timers s)))
     (run [DoFailure quiet, DoFailure quiet, DoFailure quiet, DoFailure quiet, DoFailure quiet,
           DoFailure quiet, DoSetState STATE_HALF_OPEN, DoFailure quiet :: string action] fresh)
       = Some (STATE_OPEN, 2)"
  by (simp add: fresh_eq run_eval)

subsection \<open>The defaults\<close>

text \<open>Claim C7. \<open>NewBreaker\<close> with a nil pointer gives the defaults: attempts 3,
  \<open>TimeoutState\<close> 4 seconds, \<open>LimitFailure\<close> 5, \<open>MaxRequests\<close> 10,000,000 and the
  name made of the current time. With options given, each zero or empty field takes
  its default and every other field is kept. The breaker starts Closed, with the four
  counters and the count of consecutive failures at 0 and no subscriber.\<close>

theorem NewBreaker_defaults:
  "options (NewBreaker None now) =
     \<lparr>Attempts = 3, TimeoutState = 4 * Second, LimitFailure = 5, MaxRequests = 10000000,
      NameService = Itoa now\<rparr>
   \<and> options (NewBreaker (Some given) now) =
     \<lparr>Attempts = (if Attempts given = 0 then 3 else Attempts given),
      TimeoutState = (if TimeoutState given = 0 then 4 * Second else TimeoutState given),
      LimitFailure = (if LimitFailure given = 0 then 5 else LimitFailure given),
      MaxRequests = (if MaxRequests given = 0 then 10000000 else MaxRequests given),
      NameService = (if NameService given = [] then Itoa now else NameService given)\<rparr>
   \<and> state (NewBreaker opts now) = STATE_CLOSE
   \<and> counter (NewBreaker opts now) =
       \<lparr>TotalRequests = 0, TotalSucceses = 0, TotalFailures = 0, TotalRejects = 0\<rparr>
   \<and> consecFailures (NewBreaker opts now) = 0
   \<and> events (NewBreaker opts now) = []
   \<and> 4 * Second = 4000000000"
  by (simp add: NewBreaker_def zero_options_def Let_def Second_def)

theorem NewBreaker_defaults_witness:
  "options (NewBreaker None 1700000000000000000) =
     \<lparr>Attempts = 3, TimeoutState = 4000000000, LimitFailure = 5, MaxRequests = 10000000,
      NameService = ''1700000000000000000''\<rparr>
   \<and> options (NewBreaker (Some \<lparr>Attempts = 0, TimeoutState = 50000000, LimitFailure = 2,
                                 MaxRequests = 0, NameService = ''users''\<rparr>) 1700000000000000000) =
     \<lparr>Attempts = 3, TimeoutState = 50000000, LimitFailure = 2, MaxRequests = 10000000,
      NameService = ''users''\<rparr>
   \<and> state (NewBreaker None 1700000000000000000) = 1"
  using NewBreaker_defaults [of 1700000000000000000
      "\<lparr>Attempts = 0, TimeoutState = 50000000, LimitFailure = 2, MaxRequests = 0, NameService = ''users''\<rparr>"
      None]
  by (simp add: itoa_ex Second_def STATE_CLOSE_def)

subsection \<open>The error that the breaker never makes\<close>




subsection \<open>Counting\<close>

text \<open>Claim C9. An \<open>Execute\<close> call that returns, with an operation that leaves the
  counters alone, adds one to the request counter and one to exactly one other
  counter: the rejects if the state was Open, else the failures if the returned error
  is not nil, else the successes. The call returns unless it waits, with timeout 0
  and a state that is not Open, for an operation that never returns. So after any run
  of \<open>Execute\<close> calls on a new breaker, with timers firing in between, the requests
  are the sum of the successes, the failures and the rejects. All additions are those
  of \<open>uint32\<close>.\<close>

theorem every_request_is_counted_once:
  "(keeps_counter handle \<and> part_keeps_counter part
      \<and> Execute handle timeout first part r s = Some (response, s') \<longrightarrow>
      counter (cb s') =
        (if state (cb s) = STATE_OPEN
         then (counter (cb s))\<lparr>TotalRequests := TotalRequests (counter (cb s)) + 1,
                                TotalRejects := TotalRejects (counter (cb s)) + 1\<rparr>
         else if Error response \<noteq> None
         then (counter (cb s))\<lparr>TotalRequests := TotalRequests (counter (cb s)) + 1,
                                TotalFailures := TotalFailures (counter (cb s)) + 1\<rparr>
         else (counter (cb s))\<lparr>TotalRequests := TotalRequests (counter (cb s)) + 1,
                                TotalSucceses := TotalSucceses (counter (cb s)) + 1\<rparr>))
   \<and> (state (cb s) = STATE_OPEN \<or> timeout \<noteq> 0 \<or> handle (asked s) \<noteq> None \<longrightarrow>
      Execute handle timeout first part r s \<noteq> None)
   \<and> ((\<forall>a \<in> set acts. Execute_or_timer a) \<and> run acts (start (NewBreaker opts now)) = Some z \<longrightarrow>
      TotalRequests (counter (cb z)) =
        TotalSucceses (counter (cb z)) + TotalFailures (counter (cb z)) + TotalRejects (counter (cb z)))"
proof (intro conjI impI)
  assume "state (cb s) = STATE_OPEN \<or> timeout \<noteq> 0 \<or> handle (asked s) \<noteq> None"
  then show "Execute handle timeout first part r s \<noteq> None"
    by (rule Execute_returns)
next
  assume "keeps_counter handle \<and> part_keeps_counter part
      \<and> Execute handle timeout first part r s = Some (response, s')"
  then show "counter (cb s') =
        (if state (cb s) = STATE_OPEN
         then (counter (cb s))\<lparr>TotalRequests := TotalRequests (counter (cb s)) + 1,
                                TotalRejects := TotalRejects (counter (cb s)) + 1\<rparr>
         else if Error response \<noteq> None
         then (counter (cb s))\<lparr>TotalRequests := TotalRequests (counter (cb s)) + 1,
                                TotalFailures := TotalFailures (counter (cb s)) + 1\<rparr>
         else (counter (cb s))\<lparr>TotalRequests := TotalRequests (counter (cb s)) + 1,
                                TotalSucceses := TotalSucceses (counter (cb s)) + 1\<rparr>)"
    using Execute_counter by blast
next
  assume a: "(\<forall>a \<in> set acts. Execute_or_timer a) \<and> run acts (start (NewBreaker opts now)) = Some z"
  have "balanced (start (NewBreaker opts now))"
    by (simp add: balanced_def start_def NewBreaker_def Let_def)
  with a have "balanced z"
    using balanced_run by blast
  then show "TotalRequests (counter (cb z)) =
        TotalSucceses (counter (cb z)) + TotalFailures (counter (cb z)) + TotalRejects (counter (cb z))"
    by (simp add: balanced_def)
qed

theorem every_request_is_counted_once_witness:
  "keeps_counter op_bad \<and> keeps_counter op_ok \<and> part_keeps_counter id
   \<and> map_option (counter \<circ> cb \<circ> snd) (Execute op_bad 0 HandleDone id quiet fresh) =
       Some \<lparr>TotalRequests = 1, TotalSucceses = 0, TotalFailures = 1, TotalRejects = 0\<rparr>
   \<and> map_option (counter \<circ> cb)
        (run [bad_call, bad_call, bad_call, bad_call, bad_call, bad_call,
              ok_call, DoTimerFire 0, ok_call] fresh) =
       Some \<lparr>TotalRequests = 8, TotalSucceses = 1, TotalFailures = 6, TotalRejects = 1\<rparr>
   \<and> (8 :: uint32) = 1 + 6 + 1"
proof -
  let ?acts = "[bad_call, bad_call, bad_call, bad_call, bad_call, bad_call,
              ok_call, DoTimerFire 0, ok_call]"
  let ?z = "fresh\<lparr>cb := (cb fresh)\<lparr>counter :=
              \<lparr>TotalRequests = 8, TotalSucceses = 1, TotalFailures = 6, TotalRejects = 1\<rparr>\<rparr>\<rparr>"
  let ?r = "\<lparr>Data = None, Error = Some ''Bad response status from httpbin server''\<rparr> :: string ResponseCommand"
  let ?s' = "fresh\<lparr>cb := (cb fresh)\<lparr>counter :=
              \<lparr>TotalRequests = 1, TotalSucceses = 0, TotalFailures = 1, TotalRejects = 0\<rparr>,
              consecFailures := 1\<rparr>\<rparr>"
  have a: "\<forall>a \<in> set ?acts. Execute_or_timer a"
    by (simp add: bad_call_def ok_call_def keeps_counter_op_bad keeps_counter_op_ok
        part_keeps_counter_id)
  have r: "run ?acts (start (NewBreaker (Some zero_options) 1700000000000000000)) = Some ?z"
    using scenario by (simp add: fresh_def)
  note t = every_request_is_counted_once [of op_bad id 0 HandleDone quiet fresh ?r ?s' ?acts
      "Some zero_options" 1700000000000000000 ?z]
  from t keeps_counter_op_bad part_keeps_counter_id first_bad
  have 1: "counter (cb ?s') = \<lparr>TotalRequests = 1, TotalSucceses = 0, TotalFailures = 1, TotalRejects = 0\<rparr>"
    by simp
  from t a r
  have 2: "TotalRequests (counter (cb ?z)) =
        TotalSucceses (counter (cb ?z)) + TotalFailures (counter (cb ?z)) + TotalRejects (counter (cb ?z))"
    by blast
  have 3: "map_option (counter \<circ> cb \<circ> snd) (Execute op_bad 0 HandleDone id quiet fresh) = Some (counter (cb ?s'))"
    unfolding first_bad by simp
  have 4: "map_option (counter \<circ> cb) (run ?acts fresh) = Some (counter (cb ?z))"
    unfolding scenario by simp
  from 1 2 3 4 show ?thesis
    by (simp add: keeps_counter_op_bad keeps_counter_op_ok part_keeps_counter_id del: run.simps)
qed

subsection \<open>What a call leaves alone\<close>

text \<open>Claim C10. \<open>Success\<close> called while the state is Closed or Open adds one to the
  success counter and changes nothing else; \<open>Failure\<close> called while the state is Open
  adds one to the failure counter and changes nothing else; \<open>Reject\<close>, in any state,
  adds one to the reject counter and changes nothing else. The additions are those of
  \<open>uint32\<close>.\<close>

theorem frame_of_Success_Failure_Reject:
  "(state (cb s) = STATE_CLOSE \<or> state (cb s) = STATE_OPEN \<longrightarrow>
      Success s = s\<lparr>cb := (cb s)\<lparr>counter := (counter (cb s))
                     \<lparr>TotalSucceses := TotalSucceses (counter (cb s)) + 1\<rparr>\<rparr>\<rparr>)
   \<and> (state (cb s) = STATE_OPEN \<longrightarrow>
      Failure r s = s\<lparr>cb := (cb s)\<lparr>counter := (counter (cb s))
                     \<lparr>TotalFailures := TotalFailures (counter (cb s)) + 1\<rparr>\<rparr>\<rparr>)
   \<and> Reject s = s\<lparr>cb := (cb s)\<lparr>counter := (counter (cb s))
                     \<lparr>TotalRejects := TotalRejects (counter (cb s)) + 1\<rparr>\<rparr>\<rparr>"
proof (intro conjI impI)
  assume "state (cb s) = STATE_CLOSE \<or> state (cb s) = STATE_OPEN"
  then have "state (cb s) \<noteq> STATE_HALF_OPEN"
    by (auto simp: state_consts)
  then show "Success s = s\<lparr>cb := (cb s)\<lparr>counter := (counter (cb s))
                     \<lparr>TotalSucceses := TotalSucceses (counter (cb s)) + 1\<rparr>\<rparr>\<rparr>"
    by (rule Success_other)
next
  assume "state (cb s) = STATE_OPEN"
  then show "Failure r s = s\<lparr>cb := (cb s)\<lparr>counter := (counter (cb s))
                     \<lparr>TotalFailures := TotalFailures (counter (cb s)) + 1\<rparr>\<rparr>\<rparr>"
    by (simp add: Failure_other state_consts)
next
  show "Reject s = s\<lparr>cb := (cb s)\<lparr>counter := (counter (cb s))
                     \<lparr>TotalRejects := TotalRejects (counter (cb s)) + 1\<rparr>\<rparr>\<rparr>"
    by (simp add: Reject_def)
qed

theorem frame_of_Success_Failure_Reject_witness:
  "state (cb watched_open) = STATE_OPEN
   \<and> Success watched_open = watched_open\<lparr>cb := (cb watched_open)\<lparr>counter := (counter (cb watched_open))
                     \<lparr>TotalSucceses := 1\<rparr>\<rparr>\<rparr>
   \<and> Failure (1, [0]) watched_open = watched_open\<lparr>cb := (cb watched_open)\<lparr>counter := (counter (cb watched_open))
                     \<lparr>TotalFailures := 1\<rparr>\<rparr>\<rparr>"
proof -
  have c: "counter (cb watched_open) = \<lparr>TotalRequests = 0, TotalSucceses = 0, TotalFailures = 0, TotalRejects = 0\<rparr>"
    by (simp add: watched_open_def watched_def fresh_def start_def NewBreaker_def
        Subcriber_def StartTimerChangeState_def SetState_def Let_def)
  show ?thesis
    using frame_of_Success_Failure_Reject [of watched_open "(1, [0])"] watched_open_state
    by (simp add: c)
qed

end
